theory Spec2Isabelle
  imports
    Main
    "HOL-Library.Char_ord"
    "HOL-Library.List_Lexorder"
    "HOL-Library.Product_Lexorder"
    "HOL-Library.Multiset"
begin

section \<open>Static configuration tables of \<^verbatim>\<open>main.py\<close>\<close>

text \<open>
  Python strings are modelled as \<^typ>\<open>string\<close>, one \<^typ>\<open>char\<close> per code point
  (so the model covers code points below 256).  Python compares strings code point by
  code point, shorter prefix first; that is the lexicographic order of
  \<^verbatim>\<open>HOL-Library.List_Lexorder\<close> over the character order of
  \<^verbatim>\<open>HOL-Library.Char_ord\<close>.
\<close>

definition CODE_EXTENSIONS :: "string set" where
  "CODE_EXTENSIONS =
    {''.py'', ''.js'', ''.jsx'', ''.ts'', ''.tsx'', ''.java'', ''.c'', ''.cpp'', ''.h'', ''.hpp'',
     ''.cs'', ''.go'', ''.rs'', ''.rb'', ''.php'', ''.swift'', ''.kt'', ''.scala'', ''.r'',
     ''.html'', ''.css'', ''.scss'', ''.sass'', ''.vue'', ''.svelte'',
     ''.json'', ''.yaml'', ''.yml'', ''.toml'', ''.xml'',
     ''.sql'', ''.sh'', ''.bash'', ''.ps1'', ''.bat'',
     ''.md'', ''.txt'', ''.rst''}"

definition SKIP_DIRS :: "string set" where
  "SKIP_DIRS =
    {''node_modules'', ''venv'', ''env'', ''.env'', ''__pycache__'', ''.git'', ''.svn'',
     ''dist'', ''build'', ''target'', ''bin'', ''obj'', ''.idea'', ''.vscode'',
     ''coverage'', ''.pytest_cache'', ''.mypy_cache'', ''vendor'', ''bower_components'',
     ''*_venv''}"

definition SKIP_FILES :: "string set" where
  "SKIP_FILES =
    {''.DS_Store'', ''Thumbs.db'', ''.gitignore'', ''.dockerignore'',
     ''package-lock.json'', ''yarn.lock'', ''poetry.lock'', ''Pipfile.lock''}"

section \<open>The parts of \<^verbatim>\<open>pathlib\<close> the program uses\<close>

text \<open>
  A \<^verbatim>\<open>Path\<close> is its anchor (drive and root, empty for a relative path) and the
  segments after it.  \<^verbatim>\<open>parts\<close> lists the anchor, when there is one, and the
  segments; \<^verbatim>\<open>name\<close> is the last segment, or the empty string when there is none;
  \<^verbatim>\<open>suffix\<close> is \<^verbatim>\<open>name[i:]\<close> for \<^verbatim>\<open>i = name.rfind('.')\<close> when
  \<^verbatim>\<open>0 < i < len(name) - 1\<close>, and empty otherwise; \<^verbatim>\<open>str\<close> joins the
  segments with a slash (POSIX flavour).
\<close>

record pypath =
  anchor :: string
  segs :: "string list"

definition path_parts :: "pypath \<Rightarrow> string list" where
  "path_parts p = (if anchor p = [] then [] else [anchor p]) @ segs p"

definition path_name :: "pypath \<Rightarrow> string" where
  "path_name p = (if segs p = [] then [] else last (segs p))"

fun rfind :: "char \<Rightarrow> string \<Rightarrow> nat option" where
  "rfind c [] = None"
| "rfind c (x # xs) =
     (case rfind c xs of
        Some i \<Rightarrow> Some (Suc i)
      | None \<Rightarrow> if x = c then Some 0 else None)"

definition path_suffix :: "pypath \<Rightarrow> string" where
  "path_suffix p =
     (let name = path_name p in
      case rfind (CHR ''.'') name of
        None \<Rightarrow> []
      | Some i \<Rightarrow> if 0 < i \<and> Suc i < length name then drop i name else [])"

fun join_slash :: "string list \<Rightarrow> string" where
  "join_slash [] = []"
| "join_slash [s] = s"
| "join_slash (s # t # ss) = s @ ''/'' @ join_slash (t # ss)"

definition path_str :: "pypath \<Rightarrow> string" where
  "path_str p =
     (if anchor p = [] \<and> segs p = [] then ''.'' else anchor p @ join_slash (segs p))"

definition joinpath :: "pypath \<Rightarrow> string list \<Rightarrow> pypath" where
  "joinpath root rel_segs = root\<lparr>segs := segs root @ rel_segs\<rparr>"

definition relative :: "string list \<Rightarrow> pypath" where
  "relative rel_segs = \<lparr>anchor = [], segs = rel_segs\<rparr>"

text \<open>\<^verbatim>\<open>str.lower\<close>, on the ASCII letters; other characters are left as they are.\<close>

definition lower_char :: "char \<Rightarrow> char" where
  "lower_char c =
     (if CHR ''A'' \<le> c \<and> c \<le> CHR ''Z'' then char_of (of_char c + (32::nat)) else c)"

definition lower :: "string \<Rightarrow> string" where
  "lower s = map lower_char s"

section \<open>File metadata\<close>

definition estimate_tokens :: "string \<Rightarrow> nat" where
  "estimate_tokens text = length text div 4"

text \<open>
  \<^verbatim>\<open>get_file_info\<close> opens and reads the file; any exception gives \<^verbatim>\<open>None\<close>.
  The read is the argument: \<^term>\<open>None\<close> when it raised, the decoded text otherwise.
  The result is the dictionary's values in the order \<^verbatim>\<open>size, lines, tokens, content\<close>.
\<close>

definition get_file_info :: "string option \<Rightarrow> (nat \<times> nat \<times> nat \<times> string) option" where
  "get_file_info read_result =
     (case read_result of
        None \<Rightarrow> None
      | Some content \<Rightarrow>
          Some (length content, count_list content (CHR 0x0A) + 1, estimate_tokens content, content))"

record file_info =
  path :: pypath
  full_path :: pypath
  size_f :: nat
  lines :: nat
  tokens :: nat
  content :: string

section \<open>\<^verbatim>\<open>should_include_file\<close>\<close>

text \<open>
  \<^verbatim>\<open>custom_extensions if custom_extensions else CODE_EXTENSIONS\<close>: both
  \<^verbatim>\<open>None\<close> and the empty set are falsy.
\<close>

definition active_extensions :: "string set option \<Rightarrow> string set" where
  "active_extensions custom_extensions =
     (case custom_extensions of
        None \<Rightarrow> CODE_EXTENSIONS
      | Some s \<Rightarrow> if s = {} then CODE_EXTENSIONS else s)"

definition should_include_file :: "pypath \<Rightarrow> string set option \<Rightarrow> bool" where
  "should_include_file filepath custom_extensions =
     (if path_name filepath \<in> SKIP_FILES then False
      else lower (path_suffix filepath) \<in> active_extensions custom_extensions
           \<or> path_suffix filepath = [])"

section \<open>\<^verbatim>\<open>scan_codebase\<close>\<close>

text \<open>
  The file system is what \<^verbatim>\<open>root.rglob('*')\<close> yields, in its order: for each path
  below the root its segments relative to the root, whether it is a directory, and what
  reading it gives.  The path the loop sees is the root joined with those segments.
\<close>

record fs_entry =
  rel :: "string list"
  is_dir :: bool
  data :: "string option"

definition in_skip_dir :: "pypath \<Rightarrow> bool" where
  "in_skip_dir filepath = (\<exists>skip_dir \<in> SKIP_DIRS. skip_dir \<in> set (path_parts filepath))"

definition make_file_info :: "pypath \<Rightarrow> fs_entry \<Rightarrow> nat \<times> nat \<times> nat \<times> string \<Rightarrow> file_info" where
  "make_file_info root e info =
     (case info of (sz, ln, tk, ct) \<Rightarrow>
        \<lparr>path = relative (rel e), full_path = joinpath root (rel e),
         size_f = sz, lines = ln, tokens = tk, content = ct\<rparr>)"

fun scan_loop ::
  "pypath \<Rightarrow> string set option \<Rightarrow> fs_entry list \<Rightarrow> file_info list \<times> nat \<Rightarrow> file_info list \<times> nat"
where
  "scan_loop root custom_extensions [] acc = acc"
| "scan_loop root custom_extensions (e # es) (files_data, total_tokens) =
     (if is_dir e then scan_loop root custom_extensions es (files_data, total_tokens)
      else if in_skip_dir (joinpath root (rel e))
        then scan_loop root custom_extensions es (files_data, total_tokens)
      else if \<not> should_include_file (joinpath root (rel e)) custom_extensions
        then scan_loop root custom_extensions es (files_data, total_tokens)
      else case get_file_info (data e) of
        None \<Rightarrow> scan_loop root custom_extensions es (files_data, total_tokens)
      | Some info \<Rightarrow>
          scan_loop root custom_extensions es
            (files_data @ [make_file_info root e info],
             total_tokens + tokens (make_file_info root e info)))"

definition rank_key :: "file_info \<Rightarrow> nat \<times> string" where
  "rank_key x = (tokens x, path_str (path x))"

text \<open>
  \<^verbatim>\<open>list.sort\<close> is stable, as \<^const>\<open>sort_key\<close> is.  The parameter
  \<^verbatim>\<open>max_tokens\<close> is not used by the function.
\<close>

definition scan_codebase ::
  "pypath \<Rightarrow> fs_entry list \<Rightarrow> int \<Rightarrow> string set option \<Rightarrow> file_info list \<times> nat"
where
  "scan_codebase root entries max_tokens custom_extensions =
     (case scan_loop root custom_extensions entries ([], 0) of
        (files_data, total_tokens) \<Rightarrow> (sort_key rank_key files_data, total_tokens))"

section \<open>The selection of \<^verbatim>\<open>generate_context_file\<close>\<close>

definition priority_data :: "string list \<Rightarrow> file_info list \<Rightarrow> file_info list" where
  "priority_data priority_files files_data =
     filter (\<lambda>f. path_str (path f) \<in> set priority_files) files_data"

definition other_data :: "string list \<Rightarrow> file_info list \<Rightarrow> file_info list" where
  "other_data priority_files files_data =
     filter (\<lambda>f. path_str (path f) \<notin> set priority_files) files_data"

text \<open>\<^verbatim>\<open>if priority_files:\<close> is false for \<^verbatim>\<open>None\<close> and for the empty list.\<close>

definition prioritize :: "string list option \<Rightarrow> file_info list \<Rightarrow> file_info list" where
  "prioritize priority_files files_data =
     (case priority_files of
        None \<Rightarrow> files_data
      | Some ps \<Rightarrow>
          if ps = [] then files_data
          else priority_data ps files_data @ other_data ps files_data)"

fun select_loop :: "int \<Rightarrow> file_info list \<Rightarrow> file_info list \<times> nat \<Rightarrow> file_info list \<times> nat" where
  "select_loop max_tokens [] acc = acc"
| "select_loop max_tokens (file_info # rest) (selected_files, running_tokens) =
     (if int running_tokens + int (tokens file_info) > max_tokens
      then (selected_files, running_tokens)
      else select_loop max_tokens rest
             (selected_files @ [file_info], running_tokens + tokens file_info))"

text \<open>
  The candidate order the walk runs over, and the walk's result
  \<^verbatim>\<open>(selected_files, running_tokens)\<close>.  Writing the output file is not modelled.
\<close>

definition candidate_order ::
  "pypath \<Rightarrow> fs_entry list \<Rightarrow> int \<Rightarrow> string set option \<Rightarrow> string list option \<Rightarrow> file_info list"
where
  "candidate_order root entries max_tokens custom_extensions priority_files =
     prioritize priority_files (fst (scan_codebase root entries max_tokens custom_extensions))"

definition generate_context_file ::
  "pypath \<Rightarrow> fs_entry list \<Rightarrow> int \<Rightarrow> string set option \<Rightarrow> string list option
     \<Rightarrow> file_info list \<times> nat"
where
  "generate_context_file root entries max_tokens custom_extensions priority_files =
     select_loop max_tokens
       (candidate_order root entries max_tokens custom_extensions priority_files) ([], 0)"

definition sum_tokens :: "file_info list \<Rightarrow> nat" where
  "sum_tokens fs = sum_list (map tokens fs)"

section \<open>The loop of \<^verbatim>\<open>scan_codebase\<close> as a filter\<close>

text \<open>
  What one pass of the loop body appends for an entry, if anything, and the list the loop
  builds; \<open>scan_loop_eq\<close> below proves that the loop computes exactly this.
\<close>

definition candidate_of :: "pypath \<Rightarrow> string set option \<Rightarrow> fs_entry \<Rightarrow> file_info option" where
  "candidate_of root ce e =
     (if is_dir e \<or> in_skip_dir (joinpath root (rel e))
         \<or> \<not> should_include_file (joinpath root (rel e)) ce then None
      else map_option (make_file_info root e) (get_file_info (data e)))"

definition scanned :: "pypath \<Rightarrow> string set option \<Rightarrow> fs_entry list \<Rightarrow> file_info list" where
  "scanned root ce es = List.map_filter (candidate_of root ce) es"

section \<open>Concrete inputs and the order the specification asks for\<close>

text \<open>The root \<^verbatim>\<open>Path('.')\<close> and a readable regular file below the root.\<close>

abbreviation dot_root :: pypath where
  "dot_root \<equiv> \<lparr>anchor = [], segs = []\<rparr>"

abbreviation file_entry :: "string list \<Rightarrow> string \<Rightarrow> fs_entry" where
  "file_entry r c \<equiv> \<lparr>rel = r, is_dir = False, data = Some c\<rparr>"

text \<open>
  The specification's reading of the order among priority files, used only to state what
  the specification asks for: the selected priority files come in the order in which the
  caller's list first names them.
\<close>

fun first_index :: "'a \<Rightarrow> 'a list \<Rightarrow> nat" where
  "first_index x [] = 0"
| "first_index x (y # ys) = (if x = y then 0 else Suc (first_index x ys))"

definition spec_caller_order :: "string list \<Rightarrow> file_info list \<Rightarrow> bool" where
  "spec_caller_order priority_files selected =
     sorted (map (\<lambda>f. first_index (path_str (path f)) priority_files)
               (filter (\<lambda>f. path_str (path f) \<in> set priority_files) selected))"

section \<open>Properties of the walk under the budget\<close>

lemma sum_tokens_simps [simp]:
  "sum_tokens [] = 0" "sum_tokens (f # fs) = tokens f + sum_tokens fs"
  by (simp_all add: sum_tokens_def)

lemma sum_tokens_take_Suc:
  "i < length fs \<Longrightarrow> sum_tokens (take (Suc i) fs) = sum_tokens (take i fs) + tokens (fs ! i)"
  by (simp add: take_Suc_conv_app_nth sum_tokens_def)

lemma select_loop_prefix:
  "\<exists>n \<le> length fs.
      select_loop B fs (sel, run) = (sel @ take n fs, run + sum_tokens (take n fs))
    \<and> (\<forall>i < n. int run + int (sum_tokens (take i fs)) + int (tokens (fs ! i)) \<le> B)
    \<and> (n < length fs \<longrightarrow> int run + int (sum_tokens (take n fs)) + int (tokens (fs ! n)) > B)"
proof (induction fs arbitrary: sel run)
  case Nil
  then show ?case by simp
next
  case (Cons f fs)
  show ?case
  proof (cases "int run + int (tokens f) > B")
    case True
    then have "select_loop B (f # fs) (sel, run) = (sel @ take 0 (f # fs), run + sum_tokens (take 0 (f # fs)))"
      by simp
    with True show ?thesis by (intro exI[of _ 0]) simp
  next
    case False
    from Cons.IH[of "sel @ [f]" "run + tokens f"] obtain n where n: "n \<le> length fs"
      and eq: "select_loop B fs (sel @ [f], run + tokens f) = ((sel @ [f]) @ take n fs, (run + tokens f) + sum_tokens (take n fs))"
      and fit: "\<forall>i < n. int (run + tokens f) + int (sum_tokens (take i fs)) + int (tokens (fs ! i)) \<le> B"
      and stop: "n < length fs \<longrightarrow> int (run + tokens f) + int (sum_tokens (take n fs)) + int (tokens (fs ! n)) > B"
      by blast
    have a: "select_loop B (f # fs) (sel, run) = (sel @ take (Suc n) (f # fs), run + sum_tokens (take (Suc n) (f # fs)))"
      using False eq by simp
    have b: "\<forall>i < Suc n. int run + int (sum_tokens (take i (f # fs))) + int (tokens ((f # fs) ! i)) \<le> B"
    proof (intro allI impI)
      fix i assume "i < Suc n"
      show "int run + int (sum_tokens (take i (f # fs))) + int (tokens ((f # fs) ! i)) \<le> B"
      proof (cases i)
        case 0 with False show ?thesis by simp
      next
        case (Suc j)
        with \<open>i < Suc n\<close> fit have "int (run + tokens f) + int (sum_tokens (take j fs)) + int (tokens (fs ! j)) \<le> B" by simp
        with Suc show ?thesis by simp
      qed
    qed
    have c: "Suc n < length (f # fs) \<longrightarrow> int run + int (sum_tokens (take (Suc n) (f # fs))) + int (tokens ((f # fs) ! Suc n)) > B"
      using stop by (simp add: add.assoc)
    from n a b c show ?thesis by (intro exI[of _ "Suc n"]) simp
  qed
qed

lemma select_prefix:
  "\<exists>n \<le> length fs.
      select_loop B fs ([], 0) = (take n fs, sum_tokens (take n fs))
    \<and> (\<forall>i < n. int (sum_tokens (take i fs)) + int (tokens (fs ! i)) \<le> B)
    \<and> (n < length fs \<longrightarrow> int (sum_tokens (take n fs)) + int (tokens (fs ! n)) > B)"
  using select_loop_prefix [of fs B "[]" 0] by simp

lemma prefix_sum_le:
  assumes "n \<le> length fs" "0 \<le> B"
    and "\<forall>i < n. int (sum_tokens (take i fs)) + int (tokens (fs ! i)) \<le> B"
  shows "int (sum_tokens (take n fs)) \<le> B"
proof (cases n)
  case 0
  with assms show ?thesis by simp
next
  case (Suc m)
  with assms have "m < length fs" "int (sum_tokens (take m fs)) + int (tokens (fs ! m)) \<le> B"
    by simp_all
  with Suc show ?thesis by (simp add: sum_tokens_take_Suc)
qed

lemma selected_is_prefix:
  "\<exists>n. fst (generate_context_file root es B ce pf) = take n (candidate_order root es B ce pf)"
proof -
  obtain n where "select_loop B (candidate_order root es B ce pf) ([], 0)
      = (take n (candidate_order root es B ce pf), sum_tokens (take n (candidate_order root es B ce pf)))"
    using select_prefix [of "candidate_order root es B ce pf" B] by blast
  then show ?thesis by (auto simp only: generate_context_file_def fst_conv)
qed

section \<open>Properties of the scan\<close>

lemma scanned_simps [simp]:
  "scanned root ce [] = []"
  "scanned root ce (e # es) =
     (case candidate_of root ce e of None \<Rightarrow> scanned root ce es | Some r \<Rightarrow> r # scanned root ce es)"
  by (simp_all add: scanned_def List.map_filter_simps split: option.splits)

lemma scan_loop_eq:
  "scan_loop root ce es (fd, tt) = (fd @ scanned root ce es, tt + sum_tokens (scanned root ce es))"
proof (induction es arbitrary: fd tt)
  case Nil
  then show ?case by simp
next
  case (Cons e es)
  show ?case
    by (cases "get_file_info (data e)") (simp_all add: Cons.IH candidate_of_def)
qed

lemma scan_codebase_eq:
  "scan_codebase root es mt ce = (sort_key rank_key (scanned root ce es), sum_tokens (scanned root ce es))"
  by (simp add: scan_codebase_def scan_loop_eq)

lemma set_scanned:
  "set (scanned root ce es) = {r. \<exists>e \<in> set es. candidate_of root ce e = Some r}"
  by (induction es) (auto split: option.splits)

lemma path_parts_joinpath: "path_parts (joinpath root r) = path_parts root @ r"
  by (simp add: path_parts_def joinpath_def)

lemma candidate_of_Some:
  "candidate_of root ce e = Some r \<Longrightarrow>
     \<not> is_dir e \<and> \<not> in_skip_dir (joinpath root (rel e))
     \<and> should_include_file (joinpath root (rel e)) ce
     \<and> path r = relative (rel e) \<and> full_path r = joinpath root (rel e)
     \<and> (\<exists>c. data e = Some c \<and> tokens r = estimate_tokens c \<and> content r = c)"
  by (auto simp: candidate_of_def get_file_info_def make_file_info_def
           split: if_splits option.splits)

lemma relative_inj: "relative a = relative b \<Longrightarrow> a = b"
  by (simp add: relative_def)

lemma joinpath_inj: "joinpath root a = joinpath root b \<Longrightarrow> a = b"
  by (cases root) (simp add: joinpath_def)

lemma sorted_scan: "sorted (map rank_key (fst (scan_codebase root es B ce)))"
  by (simp add: scan_codebase_eq)

lemma sorted_other: "sorted (map rank_key (other_data ps (fst (scan_codebase root es B ce))))"
  unfolding other_data_def by (rule sorted_filter) (rule sorted_scan)

lemma sorted_priority: "sorted (map rank_key (priority_data ps (fst (scan_codebase root es B ce))))"
  unfolding priority_data_def by (rule sorted_filter) (rule sorted_scan)

lemma sorted_map_take: "sorted (map f xs) \<Longrightarrow> sorted (map f (take n xs))"
  by (simp add: take_map [symmetric] sorted_wrt_take)

lemma candidate_of_extensionless:
  assumes "\<not> is_dir e" "data e = Some c" "\<not> in_skip_dir (joinpath root (rel e))"
    and "should_include_file (joinpath root (rel e)) ce"
  shows "candidate_of root ce e = Some (make_file_info root e
           (length c, count_list c (CHR 0x0A) + 1, estimate_tokens c, c))"
  using assms by (simp add: candidate_of_def get_file_info_def)

lemma mset_scanned:
  "mset es1 = mset es2 \<Longrightarrow> mset (scanned root ce es1) = mset (scanned root ce es2)"
  by (simp add: scanned_def List.map_filter_def)

lemma sum_tokens_mset: "sum_tokens fs = sum_mset (image_mset tokens (mset fs))"
  by (simp add: sum_tokens_def flip: sum_mset_sum_list)

lemma inj_on_rank_key:
  assumes "distinct (map (\<lambda>e. path_str (relative (rel e))) es)"
  shows "inj_on rank_key (set (scanned root ce es))"
proof (rule inj_onI)
  fix r1 r2
  assume r1: "r1 \<in> set (scanned root ce es)" and r2: "r2 \<in> set (scanned root ce es)"
    and k: "rank_key r1 = rank_key r2"
  from r1 obtain e1 where e1: "e1 \<in> set es" "candidate_of root ce e1 = Some r1"
    by (auto simp: set_scanned)
  from r2 obtain e2 where e2: "e2 \<in> set es" "candidate_of root ce e2 = Some r2"
    by (auto simp: set_scanned)
  from candidate_of_Some [OF e1(2)] candidate_of_Some [OF e2(2)] k
  have "path_str (relative (rel e1)) = path_str (relative (rel e2))"
    by (simp add: rank_key_def)
  moreover from assms have "inj_on (\<lambda>e. path_str (relative (rel e))) (set es)"
    by (simp add: distinct_map)
  ultimately have "e1 = e2" using e1(1) e2(1) by (auto dest: inj_onD)
  with e1(2) e2(2) show "r1 = r2" by simp
qed

section \<open>Verified properties of the selection and the scan\<close>

subsection \<open>The budget\<close>

text \<open>
  C1.  The sum of the token estimates of the selected files is at most the budget, for
  every budget that is not negative; the running total the walk returns is that sum; and
  for every budget, a file enters the selection only when the running total before it
  plus its own estimate is at most the budget.  The budget is a Python integer
  (\<^verbatim>\<open>type=int\<close>), so it may be negative: then nothing is selected, the sum is
  0 and the bound on the sum does not hold.
\<close>

theorem budget_respected:
  "(0 \<le> B \<longrightarrow> int (sum_tokens (fst (generate_context_file root es B ce pf))) \<le> B)
   \<and> snd (generate_context_file root es B ce pf)
       = sum_tokens (fst (generate_context_file root es B ce pf))
   \<and> (\<forall>i < length (fst (generate_context_file root es B ce pf)).
         int (sum_tokens (take i (fst (generate_context_file root es B ce pf))))
           + int (tokens (fst (generate_context_file root es B ce pf) ! i)) \<le> B)"
proof -
  define ord where "ord = candidate_order root es B ce pf"
  obtain n where n: "n \<le> length ord"
    and eq: "generate_context_file root es B ce pf = (take n ord, sum_tokens (take n ord))"
    and fit: "\<forall>i < n. int (sum_tokens (take i ord)) + int (tokens (ord ! i)) \<le> B"
    using select_prefix [of ord B] by (auto simp: generate_context_file_def ord_def)
  have a: "0 \<le> B \<longrightarrow> int (sum_tokens (take n ord)) \<le> B"
    using prefix_sum_le [OF n _ fit] by blast
  have c: "\<forall>i < length (take n ord).
      int (sum_tokens (take i (take n ord))) + int (tokens (take n ord ! i)) \<le> B"
    using fit by (simp add: min_def)
  from a c show ?thesis unfolding eq by simp
qed

text \<open>
  The scenario of the budget at work: \<^verbatim>\<open>a.py\<close> has 8 characters (2 tokens),
  \<^verbatim>\<open>b.py\<close> has 18 (4 tokens), the budget is 3; only \<^verbatim>\<open>a.py\<close> is selected.
\<close>

theorem budget_respected_witness:
  "(0::int) \<le> 3
   \<and> int (sum_tokens (fst (generate_context_file dot_root
        [file_entry [''a.py''] ''print(1)'',
         file_entry [''b.py''] ''print(22222222222)''] 3 None None))) \<le> 3
   \<and> 0 < length (fst (generate_context_file dot_root
        [file_entry [''a.py''] ''print(1)'',
         file_entry [''b.py''] ''print(22222222222)''] 3 None None))
   \<and> int (sum_tokens (take 0 (fst (generate_context_file dot_root
        [file_entry [''a.py''] ''print(1)'',
         file_entry [''b.py''] ''print(22222222222)''] 3 None None))))
       + int (tokens (fst (generate_context_file dot_root
        [file_entry [''a.py''] ''print(1)'',
         file_entry [''b.py''] ''print(22222222222)''] 3 None None) ! 0)) \<le> 3"
proof -
  let ?sel = "fst (generate_context_file dot_root
        [file_entry [''a.py''] ''print(1)'',
         file_entry [''b.py''] ''print(22222222222)''] 3 None None)"
  have len: "0 < length ?sel"
    by code_simp
  have "(0::int) \<le> 3" by simp
  with len budget_respected [of 3 dot_root
        "[file_entry [''a.py''] ''print(1)'',
          file_entry [''b.py''] ''print(22222222222)'']" None None]
  show ?thesis by blast
qed

lemma budget_example:
  "map (path_str \<circ> path) (fst (generate_context_file dot_root
        [file_entry [''a.py''] ''print(1)'',
         file_entry [''b.py''] ''print(22222222222)''] 3 None None)) = [''a.py'']"
  by code_simp

text \<open>
  With the budget \<open>- 1\<close> the walk selects nothing, and the sum 0 is above the budget.
\<close>

theorem budget_negative_counterexample:
  "\<not> int (sum_tokens (fst (generate_context_file dot_root
        [file_entry [''a.py''] ''x = 1''] (- 1) None None))) \<le> - 1"
  by code_simp

subsection \<open>The walk stops at the first overflow\<close>

text \<open>
  C2.  The selection is a prefix of the candidate order: every file of the prefix fitted
  when it was reached, and the file right after the prefix, when there is one, is the
  first whose inclusion would exceed the budget.  Nothing after it is looked at, whatever
  its size.  In particular, when the first file of the order alone exceeds the budget,
  the selection is empty.
\<close>

theorem walk_stops_at_first_overflow:
  "(\<exists>n \<le> length (candidate_order root es B ce pf).
      fst (generate_context_file root es B ce pf) = take n (candidate_order root es B ce pf)
    \<and> (\<forall>i < n. int (sum_tokens (take i (candidate_order root es B ce pf)))
                 + int (tokens (candidate_order root es B ce pf ! i)) \<le> B)
    \<and> (n < length (candidate_order root es B ce pf) \<longrightarrow>
          int (sum_tokens (take n (candidate_order root es B ce pf)))
            + int (tokens (candidate_order root es B ce pf ! n)) > B))
   \<and> (\<forall>f rest. candidate_order root es B ce pf = f # rest \<and> int (tokens f) > B
         \<longrightarrow> fst (generate_context_file root es B ce pf) = [])"
proof
  show "\<exists>n \<le> length (candidate_order root es B ce pf).
      fst (generate_context_file root es B ce pf) = take n (candidate_order root es B ce pf)
    \<and> (\<forall>i < n. int (sum_tokens (take i (candidate_order root es B ce pf)))
                 + int (tokens (candidate_order root es B ce pf ! i)) \<le> B)
    \<and> (n < length (candidate_order root es B ce pf) \<longrightarrow>
          int (sum_tokens (take n (candidate_order root es B ce pf)))
            + int (tokens (candidate_order root es B ce pf ! n)) > B)"
    using select_prefix [of "candidate_order root es B ce pf" B]
    by (auto simp: generate_context_file_def)
  show "\<forall>f rest. candidate_order root es B ce pf = f # rest \<and> int (tokens f) > B
         \<longrightarrow> fst (generate_context_file root es B ce pf) = []"
    by (auto simp: generate_context_file_def)
qed

text \<open>
  The priority file \<^verbatim>\<open>src/main.py\<close> (10 tokens) is put first and exceeds the
  budget 5; \<^verbatim>\<open>a.py\<close> (1 token) would fit and is not selected.
\<close>

theorem walk_stops_witness:
  "map (path_str \<circ> path) (candidate_order dot_root
      [file_entry [''a.py''] ''abcd'',
       file_entry [''src'', ''main.py''] ''import sys; print(sys.argv[1:]); exit(0);'']
      5 None (Some [''src/main.py''])) = [''src/main.py'', ''a.py'']
   \<and> map tokens (candidate_order dot_root
      [file_entry [''a.py''] ''abcd'',
       file_entry [''src'', ''main.py''] ''import sys; print(sys.argv[1:]); exit(0);'']
      5 None (Some [''src/main.py''])) = [10, 1]
   \<and> fst (generate_context_file dot_root
      [file_entry [''a.py''] ''abcd'',
       file_entry [''src'', ''main.py''] ''import sys; print(sys.argv[1:]); exit(0);'']
      5 None (Some [''src/main.py''])) = []"
proof -
  let ?es = "[file_entry [''a.py''] ''abcd'',
       file_entry [''src'', ''main.py''] ''import sys; print(sys.argv[1:]); exit(0);'']"
  let ?ord = "candidate_order dot_root ?es 5 None (Some [''src/main.py''])"
  have p: "map (path_str \<circ> path) ?ord = [''src/main.py'', ''a.py'']" by code_simp
  have t: "map tokens ?ord = [10, 1]" by code_simp
  from t obtain f rest where fr: "?ord = f # rest" "tokens f = 10"
    by (cases ?ord) auto
  then have "?ord = f # rest \<and> int (tokens f) > 5" by simp
  with walk_stops_at_first_overflow [of dot_root ?es 5 None "Some [''src/main.py'']"]
  have "fst (generate_context_file dot_root ?es 5 None (Some [''src/main.py''])) = []"
    by blast
  with p t show ?thesis by simp
qed

subsection \<open>Priority files\<close>

text \<open>
  C3.  When a priority list is supplied, the selection is the selected priority files
  followed by the selected other files; each of the two groups is in the order of the
  scan, ascending by \<^verbatim>\<open>(tokens, str(path))\<close>.  The priority list is turned into a
  set, so the order in which the caller names the files has no effect.
\<close>

theorem priority_first_in_rank_order:
  assumes "pf = Some ps" and "ps \<noteq> []"
  shows "\<exists>pri oth.
           fst (generate_context_file root es B ce pf) = pri @ oth
         \<and> (\<forall>f \<in> set pri. path_str (path f) \<in> set ps)
         \<and> (\<forall>f \<in> set oth. path_str (path f) \<notin> set ps)
         \<and> sorted (map rank_key pri) \<and> sorted (map rank_key oth)"
proof -
  define fd where "fd = fst (scan_codebase root es B ce)"
  have ord: "candidate_order root es B ce pf = priority_data ps fd @ other_data ps fd"
    using assms by (simp add: candidate_order_def prioritize_def fd_def)
  obtain n where
    eq: "fst (generate_context_file root es B ce pf) = take n (priority_data ps fd @ other_data ps fd)"
    using selected_is_prefix [of root es B ce pf] unfolding ord by blast
  define pri where "pri = take n (priority_data ps fd)"
  define oth where "oth = take (n - length (priority_data ps fd)) (other_data ps fd)"
  have 1: "fst (generate_context_file root es B ce pf) = pri @ oth"
    by (simp add: eq pri_def oth_def)
  have 2: "\<forall>f \<in> set pri. path_str (path f) \<in> set ps"
    by (auto simp: pri_def priority_data_def dest!: in_set_takeD)
  have 3: "\<forall>f \<in> set oth. path_str (path f) \<notin> set ps"
    by (auto simp: oth_def other_data_def dest!: in_set_takeD)
  have 4: "sorted (map rank_key pri)"
    unfolding pri_def fd_def by (rule sorted_map_take) (rule sorted_priority)
  have 5: "sorted (map rank_key oth)"
    unfolding oth_def fd_def by (rule sorted_map_take) (rule sorted_other)
  from 1 2 3 4 5 show ?thesis by blast
qed

theorem priority_first_witness:
  "Some [''b.py'', ''a.py''] = Some [''b.py'', ''a.py''] \<and> [''b.py'', ''a.py''] \<noteq> []
   \<and> (\<exists>pri oth.
         fst (generate_context_file dot_root
          [file_entry [''b.py''] ''12345678'', file_entry [''a.py''] ''1234'',
           file_entry [''c.py''] ''1234'']
          100 None (Some [''b.py'', ''a.py''])) = pri @ oth
       \<and> (\<forall>f \<in> set pri. path_str (path f) \<in> set [''b.py'', ''a.py''])
       \<and> (\<forall>f \<in> set oth. path_str (path f) \<notin> set [''b.py'', ''a.py''])
       \<and> sorted (map rank_key pri) \<and> sorted (map rank_key oth))"
  using priority_first_in_rank_order [of "Some [''b.py'', ''a.py'']" "[''b.py'', ''a.py'']"
      dot_root "[file_entry [''b.py''] ''12345678'', file_entry [''a.py''] ''1234'',
           file_entry [''c.py''] ''1234'']" 100 None]
  by simp

text \<open>
  The caller names \<^verbatim>\<open>b.py\<close> (2 tokens) before \<^verbatim>\<open>a.py\<close> (1 token); the
  selection has \<^verbatim>\<open>a.py\<close> first.
\<close>

lemma priority_example:
  "map (path_str \<circ> path) (fst (generate_context_file dot_root
          [file_entry [''b.py''] ''12345678'', file_entry [''a.py''] ''1234'',
           file_entry [''c.py''] ''1234'']
          100 None (Some [''b.py'', ''a.py'']))) = [''a.py'', ''b.py'', ''c.py'']"
  by code_simp

theorem priority_order_counterexample:
  "\<not> spec_caller_order [''b.py'', ''a.py'']
       (fst (generate_context_file dot_root
          [file_entry [''b.py''] ''12345678'', file_entry [''a.py''] ''1234'',
           file_entry [''c.py''] ''1234'']
          100 None (Some [''b.py'', ''a.py''])))"
  by code_simp

subsection \<open>The order of the other files\<close>

text \<open>
  C4.  The files that are not priority files (all the files of the scan when no priority
  list is given, \<^verbatim>\<open>other_data\<close> otherwise) are in ascending order of the pair
  (token estimate, relative path as a string): of two of them, the earlier one has the
  smaller estimate, or the same estimate and a path that is not greater.
\<close>

theorem rest_ascending:
  assumes "rest = fst (scan_codebase root es B ce)
         \<or> rest = other_data ps (fst (scan_codebase root es B ce))"
    and "i < j" and "j < length rest"
  shows "tokens (rest ! i) < tokens (rest ! j)
       \<or> (tokens (rest ! i) = tokens (rest ! j)
          \<and> path_str (path (rest ! i)) \<le> path_str (path (rest ! j)))"
proof -
  have "sorted (map rank_key rest)"
    using assms(1) sorted_scan sorted_other by metis
  with assms(2,3) have "map rank_key rest ! i \<le> map rank_key rest ! j"
    by (simp add: sorted_iff_nth_mono_less)
  with assms(2,3) have "rank_key (rest ! i) \<le> rank_key (rest ! j)" by simp
  then show ?thesis by (auto simp: rank_key_def less_eq_prod_def)
qed

theorem rest_ascending_witness:
  "(1::nat) < 2
   \<and> 2 < length (fst (scan_codebase dot_root
        [file_entry [''b.py''] ''1234'', file_entry [''a.py''] ''4321'',
         file_entry [''c.py''] ''''] 100 None))
   \<and> (tokens (fst (scan_codebase dot_root
        [file_entry [''b.py''] ''1234'', file_entry [''a.py''] ''4321'',
         file_entry [''c.py''] ''''] 100 None) ! 1)
       < tokens (fst (scan_codebase dot_root
        [file_entry [''b.py''] ''1234'', file_entry [''a.py''] ''4321'',
         file_entry [''c.py''] ''''] 100 None) ! 2)
     \<or> tokens (fst (scan_codebase dot_root
        [file_entry [''b.py''] ''1234'', file_entry [''a.py''] ''4321'',
         file_entry [''c.py''] ''''] 100 None) ! 1)
       = tokens (fst (scan_codebase dot_root
        [file_entry [''b.py''] ''1234'', file_entry [''a.py''] ''4321'',
         file_entry [''c.py''] ''''] 100 None) ! 2)
       \<and> path_str (path (fst (scan_codebase dot_root
        [file_entry [''b.py''] ''1234'', file_entry [''a.py''] ''4321'',
         file_entry [''c.py''] ''''] 100 None) ! 1))
         \<le> path_str (path (fst (scan_codebase dot_root
        [file_entry [''b.py''] ''1234'', file_entry [''a.py''] ''4321'',
         file_entry [''c.py''] ''''] 100 None) ! 2)))"
proof -
  let ?es = "[file_entry [''b.py''] ''1234'', file_entry [''a.py''] ''4321'',
         file_entry [''c.py''] '''']"
  have len: "2 < length (fst (scan_codebase dot_root ?es 100 None))" by code_simp
  show ?thesis
    using len rest_ascending [of "fst (scan_codebase dot_root ?es 100 None)"
        dot_root ?es 100 None "[]" 1 2]
    by simp
qed

lemma rest_example:
  "map (\<lambda>f. (tokens f, path_str (path f))) (fst (scan_codebase dot_root
        [file_entry [''b.py''] ''1234'', file_entry [''a.py''] ''4321'',
         file_entry [''c.py''] ''''] 100 None)) = [(0, ''c.py''), (1, ''a.py''), (1, ''b.py'')]"
  by code_simp

subsection \<open>Files larger than the budget\<close>

text \<open>
  C5.  A candidate whose own token estimate exceeds the budget is never selected,
  wherever it stands in the candidate order.
\<close>

theorem oversize_never_selected:
  assumes "f \<in> set (candidate_order root es B ce pf)" and "int (tokens f) > B"
  shows "f \<notin> set (fst (generate_context_file root es B ce pf))"
proof
  assume sel: "f \<in> set (fst (generate_context_file root es B ce pf))"
  define ord where "ord = candidate_order root es B ce pf"
  obtain n where n: "n \<le> length ord"
    and eq: "generate_context_file root es B ce pf = (take n ord, sum_tokens (take n ord))"
    and fit: "\<forall>i < n. int (sum_tokens (take i ord)) + int (tokens (ord ! i)) \<le> B"
    using select_prefix [of ord B] by (auto simp: generate_context_file_def ord_def)
  from sel eq have "f \<in> set (take n ord)" by simp
  then obtain i where "i < length (take n ord)" "take n ord ! i = f"
    by (auto simp: in_set_conv_nth)
  then have i: "i < n" "ord ! i = f" by simp_all
  with fit have "int (sum_tokens (take i ord)) + int (tokens f) \<le> B" by blast
  with assms(2) show False by simp
qed

theorem oversize_never_selected_witness:
  "candidate_order dot_root
      [file_entry [''a.py''] ''abcd'', file_entry [''b.py''] ''import sys; print(sys.argv[1:]); exit(0);'']
      5 None None ! 1
     \<in> set (candidate_order dot_root
      [file_entry [''a.py''] ''abcd'', file_entry [''b.py''] ''import sys; print(sys.argv[1:]); exit(0);'']
      5 None None)
   \<and> int (tokens (candidate_order dot_root
      [file_entry [''a.py''] ''abcd'', file_entry [''b.py''] ''import sys; print(sys.argv[1:]); exit(0);'']
      5 None None ! 1)) > 5
   \<and> candidate_order dot_root
      [file_entry [''a.py''] ''abcd'', file_entry [''b.py''] ''import sys; print(sys.argv[1:]); exit(0);'']
      5 None None ! 1
     \<notin> set (fst (generate_context_file dot_root
      [file_entry [''a.py''] ''abcd'', file_entry [''b.py''] ''import sys; print(sys.argv[1:]); exit(0);'']
      5 None None))"
proof -
  let ?es = "[file_entry [''a.py''] ''abcd'',
              file_entry [''b.py''] ''import sys; print(sys.argv[1:]); exit(0);'']"
  let ?ord = "candidate_order dot_root ?es 5 None None"
  have m: "?ord ! 1 \<in> set ?ord" by code_simp
  have t: "int (tokens (?ord ! 1)) > 5" by code_simp
  from oversize_never_selected [OF m t] m t show ?thesis by blast
qed

subsection \<open>Letter case of extensions\<close>

text \<open>
  C6.  The suffix of the file is lower-cased before the lookup; the entries of a
  caller-supplied extension set are not.  With the set \<^verbatim>\<open>{'.PY'}\<close> neither
  \<^verbatim>\<open>a.PY\<close> nor \<^verbatim>\<open>a.py\<close> is included, although \<^verbatim>\<open>a.PY\<close> is included
  with the set \<^verbatim>\<open>{'.py'}\<close> and with the default table.
\<close>

theorem custom_extension_case_mismatch:
  "\<not> should_include_file (joinpath dot_root [''a.PY'']) (Some {''.PY''})
   \<and> \<not> should_include_file (joinpath dot_root [''a.py'']) (Some {''.PY''})
   \<and> should_include_file (joinpath dot_root [''a.PY'']) (Some {''.py''})
   \<and> should_include_file (joinpath dot_root [''a.PY'']) None
   \<and> scan_codebase dot_root [file_entry [''a.PY''] ''abcd''] 100000 (Some {''.PY''}) = ([], 0)"
  by code_simp

subsection \<open>Skipped directories\<close>

text \<open>
  C7.  A path one of whose segments is equal to a name of \<^verbatim>\<open>SKIP_DIRS\<close> is
  the path of no candidate, whatever its extension.
\<close>

theorem skip_dir_files_never_candidates:
  assumes "\<exists>s \<in> set (path_parts (joinpath root rel_segs)). s \<in> SKIP_DIRS"
  shows "joinpath root rel_segs \<notin> full_path ` set (fst (scan_codebase root es B ce))
       \<and> relative rel_segs \<notin> path ` set (fst (scan_codebase root es B ce))"
proof -
  have "full_path r \<noteq> joinpath root rel_segs \<and> path r \<noteq> relative rel_segs"
    if "r \<in> set (fst (scan_codebase root es B ce))" for r
  proof -
    from that obtain e where e: "candidate_of root ce e = Some r"
      by (auto simp: scan_codebase_eq set_scanned)
    from candidate_of_Some [OF e]
    have ns: "\<not> in_skip_dir (joinpath root (rel e))"
      and p: "path r = relative (rel e)" and fp: "full_path r = joinpath root (rel e)"
      by simp_all
    have "rel e \<noteq> rel_segs"
      using ns assms by (auto simp: in_skip_dir_def)
    with p fp show ?thesis
      by (auto dest: relative_inj joinpath_inj)
  qed
  note none = this
  show ?thesis
  proof (intro conjI notI)
    assume "joinpath root rel_segs \<in> full_path ` set (fst (scan_codebase root es B ce))"
    then obtain r where "r \<in> set (fst (scan_codebase root es B ce))"
      and "joinpath root rel_segs = full_path r"
      by (rule imageE)
    with none [of r] show False by simp
  next
    assume "relative rel_segs \<in> path ` set (fst (scan_codebase root es B ce))"
    then obtain r where "r \<in> set (fst (scan_codebase root es B ce))"
      and "relative rel_segs = path r"
      by (rule imageE)
    with none [of r] show False by simp
  qed
qed

text \<open>
  \<^verbatim>\<open>node_modules/x.js\<close> is left out; \<^verbatim>\<open>src/x.js\<close> is a candidate, and so is
  \<^verbatim>\<open>builder/y.js\<close>, whose segment only contains a skipped name.
\<close>

theorem skip_dir_witness:
  "(\<exists>s \<in> set (path_parts (joinpath dot_root [''node_modules'', ''x.js''])). s \<in> SKIP_DIRS)
   \<and> joinpath dot_root [''node_modules'', ''x.js'']
       \<notin> full_path ` set (fst (scan_codebase dot_root
          [file_entry [''node_modules'', ''x.js''] ''abcd'', file_entry [''src'', ''x.js''] ''abcd'',
           file_entry [''builder'', ''y.js''] ''abcdefgh'']
          100000 None))
   \<and> relative [''node_modules'', ''x.js'']
       \<notin> path ` set (fst (scan_codebase dot_root
          [file_entry [''node_modules'', ''x.js''] ''abcd'', file_entry [''src'', ''x.js''] ''abcd'',
           file_entry [''builder'', ''y.js''] ''abcdefgh'']
          100000 None))
   \<and> map (path_str \<circ> path) (fst (scan_codebase dot_root
          [file_entry [''node_modules'', ''x.js''] ''abcd'', file_entry [''src'', ''x.js''] ''abcd'',
           file_entry [''builder'', ''y.js''] ''abcdefgh'']
          100000 None)) = [''src/x.js'', ''builder/y.js'']"
proof -
  have h: "\<exists>s \<in> set (path_parts (joinpath dot_root [''node_modules'', ''x.js''])). s \<in> SKIP_DIRS"
    by code_simp
  have v: "map (path_str \<circ> path) (fst (scan_codebase dot_root
          [file_entry [''node_modules'', ''x.js''] ''abcd'', file_entry [''src'', ''x.js''] ''abcd'',
           file_entry [''builder'', ''y.js''] ''abcdefgh'']
          100000 None)) = [''src/x.js'', ''builder/y.js'']"
    by code_simp
  from skip_dir_files_never_candidates [OF h] h v show ?thesis by blast
qed

subsection \<open>Files without an extension\<close>

text \<open>
  C8.  A file with an empty suffix whose name is not in \<^verbatim>\<open>SKIP_FILES\<close> passes
  \<^verbatim>\<open>should_include_file\<close> for every extension set; it is a candidate when,
  moreover, no segment of its path is in \<^verbatim>\<open>SKIP_DIRS\<close> and it can be read.
\<close>

theorem extensionless_candidate:
  assumes "path_suffix (joinpath root (rel e)) = []"
    and "path_name (joinpath root (rel e)) \<notin> SKIP_FILES"
  shows "should_include_file (joinpath root (rel e)) ce
       \<and> (e \<in> set es \<and> \<not> is_dir e \<and> \<not> in_skip_dir (joinpath root (rel e)) \<and> data e = Some c
            \<longrightarrow> make_file_info root e (length c, count_list c (CHR 0x0A) + 1, estimate_tokens c, c)
                  \<in> set (fst (scan_codebase root es B ce)))"
proof -
  have inc: "should_include_file (joinpath root (rel e)) ce"
    using assms by (simp add: should_include_file_def)
  moreover have "make_file_info root e (length c, count_list c (CHR 0x0A) + 1, estimate_tokens c, c)
                  \<in> set (fst (scan_codebase root es B ce))"
    if "e \<in> set es" "\<not> is_dir e" "\<not> in_skip_dir (joinpath root (rel e))" "data e = Some c"
    using that candidate_of_extensionless [OF that(2) that(4) that(3) inc]
    by (auto simp: scan_codebase_eq set_scanned)
  ultimately show ?thesis by blast
qed

theorem extensionless_candidate_witness:
  "path_suffix (joinpath dot_root (rel (file_entry [''Makefile''] ''all: main''))) = []
   \<and> path_name (joinpath dot_root (rel (file_entry [''Makefile''] ''all: main''))) \<notin> SKIP_FILES
   \<and> should_include_file (joinpath dot_root (rel (file_entry [''Makefile''] ''all: main''))) (Some {''.py''})
   \<and> file_entry [''Makefile''] ''all: main'' \<in> set [file_entry [''Makefile''] ''all: main'']
   \<and> \<not> is_dir (file_entry [''Makefile''] ''all: main'')
   \<and> \<not> in_skip_dir (joinpath dot_root (rel (file_entry [''Makefile''] ''all: main'')))
   \<and> data (file_entry [''Makefile''] ''all: main'') = Some ''all: main''
   \<and> make_file_info dot_root (file_entry [''Makefile''] ''all: main'')
        (length ''all: main'', count_list ''all: main'' (CHR 0x0A) + 1,
         estimate_tokens ''all: main'', ''all: main'')
       \<in> set (fst (scan_codebase dot_root [file_entry [''Makefile''] ''all: main''] 100000 (Some {''.py''})))"
proof -
  let ?e = "file_entry [''Makefile''] ''all: main''"
  have s: "path_suffix (joinpath dot_root (rel ?e)) = []" by code_simp
  have n: "path_name (joinpath dot_root (rel ?e)) \<notin> SKIP_FILES" by code_simp
  have k: "\<not> in_skip_dir (joinpath dot_root (rel ?e))" by code_simp
  from extensionless_candidate [OF s n, of "Some {''.py''}" "[?e]" "''all: main''" 100000] s n k
  show ?thesis by simp
qed

text \<open>
  \<^verbatim>\<open>build/Makefile\<close> has no extension and its name is not a skipped file name,
  yet it is not a candidate: the directory is skipped.
\<close>

theorem extensionless_counterexample:
  "path_suffix (joinpath dot_root [''build'', ''Makefile'']) = []
   \<and> path_name (joinpath dot_root [''build'', ''Makefile'']) \<notin> SKIP_FILES
   \<and> should_include_file (joinpath dot_root [''build'', ''Makefile'']) None
   \<and> scan_codebase dot_root [file_entry [''build'', ''Makefile''] ''all: main''] 100000 None = ([], 0)"
  by code_simp

subsection \<open>Determinism\<close>

text \<open>
  C9.  The scan and the selection depend on the set of files only, not on the order in
  which the directory walk yields them: two walks over the same entries (each relative
  path once), with the same budget, extension set and priority list, give the same
  candidates, the same total and the same selection in the same order.
\<close>

theorem selection_independent_of_walk_order:
  assumes "mset es1 = mset es2"
    and "distinct (map (\<lambda>e. path_str (relative (rel e))) es1)"
  shows "scan_codebase root es1 B ce = scan_codebase root es2 B ce
       \<and> generate_context_file root es1 B ce pf = generate_context_file root es2 B ce pf"
proof -
  have m: "mset (scanned root ce es1) = mset (scanned root ce es2)"
    using assms(1) by (rule mset_scanned)
  have "sort_key rank_key (scanned root ce es1) = sort_key rank_key (scanned root ce es2)"
  proof (rule sort_key_inj_key_eq)
    show "mset (scanned root ce es1) = mset (sort_key rank_key (scanned root ce es2))"
      using m by simp
    show "inj_on rank_key (set (scanned root ce es1))"
      using assms(2) by (rule inj_on_rank_key)
    show "sorted (map rank_key (sort_key rank_key (scanned root ce es2)))"
      by simp
  qed
  moreover have "sum_tokens (scanned root ce es1) = sum_tokens (scanned root ce es2)"
    using m by (simp add: sum_tokens_mset)
  ultimately have "scan_codebase root es1 B ce = scan_codebase root es2 B ce"
    by (simp add: scan_codebase_eq)
  then show ?thesis
    by (simp add: generate_context_file_def candidate_order_def)
qed

theorem walk_order_witness:
  "mset [file_entry [''a.py''] ''abcd'', file_entry [''b.py''] ''dcba'']
     = mset [file_entry [''b.py''] ''dcba'', file_entry [''a.py''] ''abcd'']
   \<and> distinct (map (\<lambda>e. path_str (relative (rel e)))
        [file_entry [''a.py''] ''abcd'', file_entry [''b.py''] ''dcba''])
   \<and> scan_codebase dot_root [file_entry [''a.py''] ''abcd'', file_entry [''b.py''] ''dcba''] 100 None
     = scan_codebase dot_root [file_entry [''b.py''] ''dcba'', file_entry [''a.py''] ''abcd''] 100 None
   \<and> generate_context_file dot_root
        [file_entry [''a.py''] ''abcd'', file_entry [''b.py''] ''dcba''] 100 None None
     = generate_context_file dot_root
        [file_entry [''b.py''] ''dcba'', file_entry [''a.py''] ''abcd''] 100 None None"
proof -
  have m: "mset [file_entry [''a.py''] ''abcd'', file_entry [''b.py''] ''dcba'']
     = mset [file_entry [''b.py''] ''dcba'', file_entry [''a.py''] ''abcd'']"
    by (simp add: add_mset_commute)
  have d: "distinct (map (\<lambda>e. path_str (relative (rel e)))
        [file_entry [''a.py''] ''abcd'', file_entry [''b.py''] ''dcba''])"
    by code_simp
  from selection_independent_of_walk_order [OF m d, of dot_root 100 None None] m d
  show ?thesis by blast
qed

subsection \<open>A root below a skipped directory\<close>

text \<open>
  C10.  The segments of the root are part of every path the loop tests: when one of
  them is in \<^verbatim>\<open>SKIP_DIRS\<close>, the scan returns no candidate and the total 0.
\<close>

theorem root_in_skip_dir_scans_nothing:
  assumes "\<exists>s \<in> set (path_parts root). s \<in> SKIP_DIRS"
  shows "scan_codebase root es B ce = ([], 0)"
proof -
  have "candidate_of root ce e = None" for e
    using assms by (auto simp: candidate_of_def in_skip_dir_def path_parts_joinpath)
  then have "scanned root ce es = []"
    by (induction es) simp_all
  then show ?thesis by (simp add: scan_codebase_eq)
qed

theorem root_in_skip_dir_witness:
  "(\<exists>s \<in> set (path_parts \<lparr>anchor = ''/'', segs = [''home'', ''build'', ''proj'']\<rparr>). s \<in> SKIP_DIRS)
   \<and> scan_codebase \<lparr>anchor = ''/'', segs = [''home'', ''build'', ''proj'']\<rparr>
        [file_entry [''src'', ''x.js''] ''abcd'', file_entry [''main.py''] ''abcd''] 100000 None
       = ([], 0)"
proof -
  have h: "\<exists>s \<in> set (path_parts \<lparr>anchor = ''/'', segs = [''home'', ''build'', ''proj'']\<rparr>). s \<in> SKIP_DIRS"
    by code_simp
  from root_in_skip_dir_scans_nothing [OF h] h show ?thesis by blast
qed

end
